theory Spec2Isabelle
  imports
    Complex_Main
    "HOL-Library.Sublist"
    "HOL-Library.Multiset"
    "HOL-Library.Char_ord"
    "HOL-Library.List_Lexorder"
    "HOL-Library.Product_Lexorder"
begin

section \<open>Data model\<close>

text \<open>
  The dashboard script \<^verbatim>\<open>app.py\<close> works on one pandas DataFrame. A DataFrame is
  modelled row-wise, as the list of its rows in index order; a Series is the list of one
  column's cells in the same order.

  \<^verbatim>\<open>read_csv\<close> turns an empty cell into a missing value (NaN). A text cell is
  therefore an optional byte string, \<open>None\<close> for the empty cell; present texts are
  compared by code, as Python compares \<^verbatim>\<open>str\<close> values. A \<^verbatim>\<open>datetime64[ns]\<close> cell is
  the integer count of nanoseconds since 1970-01-01T00:00, which is how pandas stores
  and compares it. An amount is the number a float64 cell stands for; amount cells are
  present.
\<close>

type_synonym timestamp = int

type_synonym text_cell = "string option"

text \<open>The columns read from the CSV file; \<open>'d\<close> is the type of the \<^verbatim>\<open>Date\<close> cell.\<close>

record 'd sale =
  OrderID :: text_cell
  Date :: 'd
  Region :: text_cell
  Category :: text_cell
  Product :: text_cell
  Store :: text_cell
  CustomerSegment :: text_cell
  PaymentMethod :: text_cell
  TotalRevenue :: real

text \<open>
  A row of \<^verbatim>\<open>df\<close> after \<^verbatim>\<open>load_data\<close>: the date parsed, three columns added; \<open>'n\<close> is
  the type of the cells of \<^verbatim>\<open>Year\<close> and \<^verbatim>\<open>Quarter\<close>.
\<close>

record ('d, 'n) loaded = "'d sale" +
  Month :: string
  Year :: 'n
  Quarter :: 'n

text \<open>
  A row as \<^verbatim>\<open>load_data\<close> returns it: an empty \<^verbatim>\<open>Date\<close> cell has become NaT, and
  the year and the quarter of NaT are NaN; \<open>None\<close> stands for both.
\<close>

type_synonym loaded_row = "(timestamp option, int option) loaded"

text \<open>
  A row whose date is present. The filter expression and the aggregations are modelled
  on frames of such rows.
\<close>

type_synonym dated_row = "(timestamp, int) loaded"

text \<open>
  The values the sidebar widgets hand to the filter expression (lines 152-159):
  the five multiselect lists and the two ends of the date range.
\<close>

record FilterSpec =
  regions :: "text_cell list"
  categories :: "text_cell list"
  segments :: "text_cell list"
  years :: "int list"
  quarters :: "int list"
  start_date :: timestamp
  end_date :: timestamp

section \<open>Calendar fields of a timestamp\<close>

text \<open>
  The accessors \<^verbatim>\<open>.dt.year\<close>, \<^verbatim>\<open>.dt.quarter\<close> and \<^verbatim>\<open>.dt.to_period('M')\<close> are
  pandas library code, not code of the script. They are modelled by the decomposition
  the library performs: the day number is the floor of the nanosecond count divided by
  the length of a day, the year and the day within it come from the 400, 100, 4 and
  1 year cycles counted from 2000-01-01, and the month is found by walking the table of
  month lengths.
\<close>

definition ns_per_day :: int where
  "ns_per_day = 86400000000000"

definition days_since_epoch :: "timestamp \<Rightarrow> int" where
  "days_since_epoch t = t div ns_per_day"

definition is_leapyear :: "int \<Rightarrow> bool" where
  "is_leapyear y \<longleftrightarrow> y mod 4 = 0 \<and> (y mod 100 \<noteq> 0 \<or> y mod 400 = 0)"

text \<open>The year of a day number and the zero-based day within that year.\<close>

definition days_to_yearsdays :: "int \<Rightarrow> int \<times> int" where
  "days_to_yearsdays d =
     (let days = d - (365 * 30 + 7);
          year = 400 * (days div 146097);
          days = days mod 146097
      in if days \<ge> 366 then
           (let year = year + 100 * ((days - 1) div 36524);
                days = (days - 1) mod 36524
            in if days \<ge> 365 then
                 (let year = year + 4 * ((days + 1) div 1461);
                      days = (days + 1) mod 1461
                  in if days \<ge> 366 then
                       (year + (days - 1) div 365 + 2000, (days - 1) mod 365)
                     else (year + 2000, days))
               else (year + 2000, days))
         else (year + 2000, days))"

definition days_per_month :: "bool \<Rightarrow> int list" where
  "days_per_month leap =
     (if leap then [31, 29, 31, 30, 31, 30, 31, 31, 30, 31, 30, 31]
      else [31, 28, 31, 30, 31, 30, 31, 31, 30, 31, 30, 31])"

text \<open>
  The walk over the month lengths: \<open>i\<close> months are behind, \<open>days\<close> days remain. A walk
  that leaves the table sets no month; the value 0 stands for that.
\<close>

fun month_loop :: "int list \<Rightarrow> int \<Rightarrow> int \<Rightarrow> int" where
  "month_loop [] i days = 0"
| "month_loop (l # ls) i days =
     (if days < l then i + 1 else month_loop ls (i + 1) (days - l))"

definition dt_year :: "timestamp \<Rightarrow> int" where
  "dt_year t = fst (days_to_yearsdays (days_since_epoch t))"

definition dt_month :: "timestamp \<Rightarrow> int" where
  "dt_month t =
     (let (year, days) = days_to_yearsdays (days_since_epoch t)
      in month_loop (days_per_month (is_leapyear year)) 0 days)"

text \<open>\<^verbatim>\<open>.dt.quarter\<close>: the library computes \<^verbatim>\<open>((month - 1) // 3) + 1\<close>.\<close>

definition dt_quarter :: "timestamp \<Rightarrow> int" where
  "dt_quarter t = (dt_month t - 1) div 3 + 1"

definition digit_char :: "nat \<Rightarrow> char" where
  "digit_char n = ''0123456789'' ! n"

fun str_nat :: "nat \<Rightarrow> string" where
  "str_nat n =
     (if n < 10 then [digit_char n] else str_nat (n div 10) @ [digit_char (n mod 10)])"

declare str_nat.simps [simp del]

definition zfill :: "nat \<Rightarrow> string \<Rightarrow> string" where
  "zfill w s = replicate (w - length s) (CHR ''0'') @ s"

text \<open>
  \<^verbatim>\<open>.dt.to_period('M').astype(str)\<close>: the text \<^verbatim>\<open>YYYY-MM\<close>. The years a pandas timestamp
  can hold (1677 to 2262) have four digits.
\<close>

definition period_str :: "timestamp \<Rightarrow> string" where
  "period_str t =
     zfill 4 (str_nat (nat (dt_year t))) @ ''-'' @ zfill 2 (str_nat (nat (dt_month t)))"

section \<open>Loading\<close>

text \<open>
  \<^verbatim>\<open>pd.to_datetime\<close> on the \<^verbatim>\<open>Date\<close> column: an empty cell becomes NaT and nothing
  is raised; a text that is not a date raises. Which texts are dates is the library's
  business: the parser of one text is a parameter, \<open>None\<close> where it rejects.
\<close>

datatype error = ValueError

fun to_datetime ::
  "(string \<Rightarrow> timestamp option) \<Rightarrow> text_cell list \<Rightarrow> error + timestamp option list" where
  "to_datetime parse [] = Inr []"
| "to_datetime parse (None # cs) =
     (case to_datetime parse cs of
        Inl e \<Rightarrow> Inl e
      | Inr ts \<Rightarrow> Inr (None # ts))"
| "to_datetime parse (Some s # cs) =
     (case parse s of
        None \<Rightarrow> Inl ValueError
      | Some t \<Rightarrow>
          (case to_datetime parse cs of
             Inl e \<Rightarrow> Inl e
           | Inr ts \<Rightarrow> Inr (Some t # ts)))"

text \<open>
  Lines 57-60 for one row: the parsed date replaces the text, three columns are added.
  The period of NaT prints as \<^verbatim>\<open>NaT\<close>; its year and quarter are NaN.
\<close>

definition add_columns :: "text_cell sale \<Rightarrow> timestamp option \<Rightarrow> loaded_row" where
  "add_columns r d =
     \<lparr>OrderID = OrderID r, Date = d, Region = Region r, Category = Category r,
      Product = Product r, Store = Store r, CustomerSegment = CustomerSegment r,
      PaymentMethod = PaymentMethod r, TotalRevenue = TotalRevenue r,
      Month = (case d of None \<Rightarrow> ''NaT'' | Some t \<Rightarrow> period_str t),
      Year = map_option dt_year d, Quarter = map_option dt_quarter d\<rparr>"

definition load_data ::
  "(string \<Rightarrow> timestamp option) \<Rightarrow> text_cell sale list \<Rightarrow> error + loaded_row list" where
  "load_data parse csv =
     (case to_datetime parse (map Date csv) of
        Inl e \<Rightarrow> Inl e
      | Inr dates \<Rightarrow> Inr (map2 add_columns csv dates))"

text \<open>A row whose date is present, as it stands in the frame \<^verbatim>\<open>load_data\<close> returns.\<close>

definition as_loaded :: "dated_row \<Rightarrow> loaded_row" where
  "as_loaded r =
     \<lparr>OrderID = OrderID r, Date = Some (Date r), Region = Region r, Category = Category r,
      Product = Product r, Store = Store r, CustomerSegment = CustomerSegment r,
      PaymentMethod = PaymentMethod r, TotalRevenue = TotalRevenue r,
      Month = Month r, Year = Some (Year r), Quarter = Some (Quarter r)\<rparr>"

section \<open>The filter expression\<close>

text \<open>\<^verbatim>\<open>df[c]\<close>: one column as a Series.\<close>

definition column :: "('r \<Rightarrow> 'a) \<Rightarrow> 'r list \<Rightarrow> 'a list" where
  "column c frame = map c frame"

text \<open>\<^verbatim>\<open>Series.isin(values)\<close>: per cell, whether it equals some element of \<open>values\<close>;
  a missing cell is matched by a missing value among them.\<close>

definition isin :: "'a list \<Rightarrow> 'a list \<Rightarrow> bool list" where
  "isin series vals = map (\<lambda>x. x \<in> set vals) series"

text \<open>\<^verbatim>\<open>Series.between(left, right)\<close>, with its default \<^verbatim>\<open>inclusive="both"\<close>.\<close>

definition between :: "timestamp list \<Rightarrow> timestamp \<Rightarrow> timestamp \<Rightarrow> bool list" where
  "between series left right = map (\<lambda>x. left \<le> x \<and> x \<le> right) series"

text \<open>\<^verbatim>\<open>a & b\<close> on two boolean Series over the same index.\<close>

definition series_and :: "bool list \<Rightarrow> bool list \<Rightarrow> bool list" where
  "series_and a b = map2 (\<and>) a b"

text \<open>\<^verbatim>\<open>df[mask]\<close>: the rows whose mask cell is true, in index order.\<close>

definition bool_index :: "'r list \<Rightarrow> bool list \<Rightarrow> 'r list" where
  "bool_index frame flags = map fst (filter snd (zip frame flags))"

text \<open>Lines 152-159; \<^verbatim>\<open>&\<close> associates to the left.\<close>

definition df_filtered :: "FilterSpec \<Rightarrow> dated_row list \<Rightarrow> dated_row list" where
  "df_filtered spec df =
     bool_index df
       (series_and
         (series_and
           (series_and
             (series_and
               (series_and
                 (isin (column Region df) (regions spec))
                 (isin (column Category df) (categories spec)))
               (isin (column CustomerSegment df) (segments spec)))
             (isin (column Year df) (years spec)))
           (isin (column Quarter df) (quarters spec)))
         (between (column Date df) (start_date spec) (end_date spec)))"

text \<open>
  The two frames the script holds while it filters. The assignment of line 152 binds
  \<^verbatim>\<open>df_filtered\<close> to a new frame; \<^verbatim>\<open>df\<close> stays bound to the loaded one.
\<close>

record frames =
  frame_df :: "dated_row list"
  frame_df_filtered :: "dated_row list"

definition apply_filters :: "FilterSpec \<Rightarrow> frames \<Rightarrow> frames" where
  "apply_filters spec s = s\<lparr>frame_df_filtered := df_filtered spec (frame_df s)\<rparr>"

text \<open>
  The matching condition of the specification, section 4.2: a conjunction of five
  memberships and the inclusive date range.
\<close>

definition matches :: "FilterSpec \<Rightarrow> dated_row \<Rightarrow> bool" where
  "matches spec r \<longleftrightarrow>
     Region r \<in> set (regions spec) \<and>
     Category r \<in> set (categories spec) \<and>
     CustomerSegment r \<in> set (segments spec) \<and>
     Year r \<in> set (years spec) \<and>
     Quarter r \<in> set (quarters spec) \<and>
     start_date spec \<le> Date r \<and> Date r \<le> end_date spec"

section \<open>Library kernels\<close>

text \<open>
  The script adds float64 amounts and sorts only through pandas, whose numeric kernels
  are not code of the script. What a float64 sum or mean of given amounts is depends on
  the rounding and on the order of the additions inside the library, and the order the
  default sort (\<^verbatim>\<open>kind='quicksort'\<close>) gives to equal values is not fixed by the library.
  These kernels are parameters: the sum and the mean of a non-empty float64 column, the
  sum of one group's amounts, and the indirect sort of a float64 and of an integer array.
\<close>

record kernels =
  sum_f64 :: "real list \<Rightarrow> real"
  mean_f64 :: "real list \<Rightarrow> real"
  group_sum_f64 :: "real list \<Rightarrow> real"
  argsort_f64 :: "real list \<Rightarrow> nat list"
  argsort_i64 :: "nat list \<Rightarrow> nat list"

text \<open>
  What an indirect sort promises: the positions of the array, each once, in an order in
  which the values ascend.
\<close>

definition valid_argsort :: "('v::linorder list \<Rightarrow> nat list) \<Rightarrow> bool" where
  "valid_argsort argsort \<longleftrightarrow>
     (\<forall>xs. mset (argsort xs) = mset [0..<length xs] \<and> sorted (map (\<lambda>i. xs ! i) (argsort xs)))"

text \<open>A sum kernel is exact on a list of amounts when no addition rounds.\<close>

definition exact_sum :: "(real list \<Rightarrow> real) \<Rightarrow> real list \<Rightarrow> bool" where
  "exact_sum f xs \<longleftrightarrow> f xs = sum_list xs"

text \<open>
  Two indirect sorts that keep the promise: one leaves equal values in the order of
  their positions, the other in the reverse order.
\<close>

definition stable_argsort :: "'v::linorder list \<Rightarrow> nat list" where
  "stable_argsort xs = map snd (sort_key fst (zip xs [0..<length xs]))"

definition reversing_argsort :: "'v::linorder list \<Rightarrow> nat list" where
  "reversing_argsort xs = map snd (sort_key fst (rev (zip xs [0..<length xs])))"

section \<open>Key figures and aggregations\<close>

text \<open>
  A floating point result is a number or NaN. \<^verbatim>\<open>Series.mean()\<close> is the library's mean
  when the count is positive and NaN otherwise; it does not raise.
\<close>

datatype scalar = Num real | NaN

definition mean :: "kernels \<Rightarrow> real list \<Rightarrow> scalar" where
  "mean L xs = (if length xs > 0 then Num (mean_f64 L xs) else NaN)"

text \<open>\<^verbatim>\<open>Series.sum()\<close>: 0 on an empty column.\<close>

definition series_sum :: "kernels \<Rightarrow> real list \<Rightarrow> real" where
  "series_sum L xs = (if xs = [] then 0 else sum_f64 L xs)"

text \<open>The present cells of a column, in order.\<close>

fun dropna :: "'a option list \<Rightarrow> 'a list" where
  "dropna [] = []"
| "dropna (None # xs) = dropna xs"
| "dropna (Some x # xs) = x # dropna xs"

text \<open>\<^verbatim>\<open>Series.unique()\<close>: the distinct cells in order of first appearance.\<close>

definition unique :: "'a list \<Rightarrow> 'a list" where
  "unique xs = rev (remdups (rev xs))"

text \<open>Lines 170-172; \<^verbatim>\<open>nunique()\<close> does not count the missing value.\<close>

definition total_revenue :: "kernels \<Rightarrow> dated_row list \<Rightarrow> real" where
  "total_revenue L v = series_sum L (column TotalRevenue v)"

definition total_orders :: "dated_row list \<Rightarrow> nat" where
  "total_orders v = length (unique (dropna (column OrderID v)))"

definition avg_order_value :: "kernels \<Rightarrow> dated_row list \<Rightarrow> scalar" where
  "avg_order_value L v = mean L (column TotalRevenue v)"

text \<open>
  \<^verbatim>\<open>frame.groupby(key)[val].sum()\<close>. \<^verbatim>\<open>groupby\<close> is called with its defaults, so
  \<^verbatim>\<open>sort=True\<close> and \<^verbatim>\<open>dropna=True\<close>: the rows whose key is missing are left out, and
  there is one row per present key, the keys in ascending order, each with the sum of
  the amounts of its rows in frame order.
\<close>

definition groupby_sum ::
  "('r \<Rightarrow> 'k::linorder option) \<Rightarrow> ('r \<Rightarrow> real) \<Rightarrow> (real list \<Rightarrow> real) \<Rightarrow> 'r list \<Rightarrow> ('k \<times> real) list" where
  "groupby_sum key val gsum frame =
     map (\<lambda>k. (k, gsum (map val (filter (\<lambda>r. key r = Some k) frame))))
       (sort (remdups (dropna (map key frame))))"

text \<open>
  \<^verbatim>\<open>sort_values(ascending=False)\<close> on the value of (label, value) rows. pandas reverses
  the values and their positions, sorts the reversed values indirectly with the default
  kind, maps the outcome back to positions, reverses it, and takes the rows at these
  positions.
\<close>

definition sort_values_desc :: "('v list \<Rightarrow> nat list) \<Rightarrow> ('k \<times> 'v) list \<Rightarrow> ('k \<times> 'v) list" where
  "sort_values_desc argsort rows =
     (let items = rev (map snd rows);
          idx = rev [0..<length rows];
          indexer = rev (map (\<lambda>i. idx ! i) (argsort items))
      in map (\<lambda>i. rows ! i) indexer)"

text \<open>\<^verbatim>\<open>.head(n)\<close>.\<close>

definition head :: "nat \<Rightarrow> 'a list \<Rightarrow> 'a list" where
  "head n rows = take n rows"

text \<open>
  \<^verbatim>\<open>Series.value_counts()\<close>: the distinct present cells with their numbers of
  occurrences, counted in order of first appearance, then sorted by count, largest first.
\<close>

definition value_counts :: "(nat list \<Rightarrow> nat list) \<Rightarrow> 'a option list \<Rightarrow> ('a \<times> nat) list" where
  "value_counts argsort xs =
     sort_values_desc argsort
       (map (\<lambda>k. (k, length (filter (\<lambda>x. x = k) (dropna xs)))) (unique (dropna xs)))"

text \<open>Line 205. The month is a text and never missing; the region can be.\<close>

definition month_region :: "dated_row \<Rightarrow> (string \<times> string) option" where
  "month_region r = map_option (\<lambda>g. (Month r, g)) (Region r)"

definition monthly_region :: "kernels \<Rightarrow> dated_row list \<Rightarrow> ((string \<times> string) \<times> real) list" where
  "monthly_region L v = groupby_sum month_region TotalRevenue (group_sum_f64 L) v"

text \<open>Line 223.\<close>

definition category_rev :: "kernels \<Rightarrow> dated_row list \<Rightarrow> (string \<times> real) list" where
  "category_rev L v = groupby_sum Category TotalRevenue (group_sum_f64 L) v"

text \<open>Lines 247-252.\<close>

definition top_products :: "kernels \<Rightarrow> dated_row list \<Rightarrow> (string \<times> real) list" where
  "top_products L v =
     head 10 (sort_values_desc (argsort_f64 L)
       (groupby_sum Product TotalRevenue (group_sum_f64 L) v))"

text \<open>Line 271.\<close>

definition segment_rev :: "kernels \<Rightarrow> dated_row list \<Rightarrow> (string \<times> real) list" where
  "segment_rev L v = groupby_sum CustomerSegment TotalRevenue (group_sum_f64 L) v"

text \<open>Lines 294-295.\<close>

definition payment_counts :: "kernels \<Rightarrow> dated_row list \<Rightarrow> (string \<times> nat) list" where
  "payment_counts L v = value_counts (argsort_i64 L) (column PaymentMethod v)"

text \<open>Line 314.\<close>

definition store_rev :: "kernels \<Rightarrow> dated_row list \<Rightarrow> (string \<times> real) list" where
  "store_rev L v =
     head 10 (sort_values_desc (argsort_f64 L)
       (groupby_sum Store TotalRevenue (group_sum_f64 L) v))"

section \<open>Orders named by the specification\<close>

text \<open>
  The position at which a cell is first met in a column, and the order the
  specification gives to top-N entries: larger value first, and among equal values the
  key met first in the view.
\<close>

definition first_index :: "'k list \<Rightarrow> 'k \<Rightarrow> nat" where
  "first_index ks k = length (takeWhile (\<lambda>x. x \<noteq> k) ks)"

definition desc_then_encounter :: "'k option list \<Rightarrow> ('k \<times> real) \<Rightarrow> ('k \<times> real) \<Rightarrow> bool" where
  "desc_then_encounter ks p q \<longleftrightarrow>
     snd p > snd q \<or>
     (snd p = snd q \<and> first_index ks (Some (fst p)) < first_index ks (Some (fst q)))"

section \<open>Sample data\<close>

text \<open>
  Three sales, as in the scenario of the specification (regions A, A, B with revenues
  100, 200, 50), first as read from the file and then with their dates parsed.
\<close>

definition sample_dates :: "string \<Rightarrow> timestamp option" where
  "sample_dates = map_of
     [(''2024-04-15'', 1713139200000000000),
      (''2024-12-31'', 1735603200000000000),
      (''2024-01-10'', 1704844800000000000)]"

definition sample_csv :: "text_cell sale list" where
  "sample_csv =
     [\<lparr>OrderID = Some ''O1'', Date = Some ''2024-04-15'', Region = Some ''A'',
       Category = Some ''iPhone'', Product = Some ''iPhone 15'', Store = Some ''Paris'',
       CustomerSegment = Some ''Consumer'', PaymentMethod = Some ''Cash'',
       TotalRevenue = 100\<rparr>,
      \<lparr>OrderID = Some ''O2'', Date = Some ''2024-12-31'', Region = Some ''A'',
       Category = Some ''Mac'', Product = Some ''MacBook Air'', Store = Some ''Lyon'',
       CustomerSegment = Some ''Business'', PaymentMethod = Some ''Card'',
       TotalRevenue = 200\<rparr>,
      \<lparr>OrderID = Some ''O3'', Date = Some ''2024-01-10'', Region = Some ''B'',
       Category = Some ''iPhone'', Product = Some ''iPhone 15'', Store = Some ''Paris'',
       CustomerSegment = Some ''Consumer'', PaymentMethod = Some ''Card'',
       TotalRevenue = 50\<rparr>]"

definition sale1 :: dated_row where
  "sale1 =
     \<lparr>OrderID = Some ''O1'', Date = 1713139200000000000, Region = Some ''A'',
      Category = Some ''iPhone'', Product = Some ''iPhone 15'', Store = Some ''Paris'',
      CustomerSegment = Some ''Consumer'', PaymentMethod = Some ''Cash'',
      TotalRevenue = 100, Month = ''2024-04'', Year = 2024, Quarter = 2\<rparr>"

definition sale2 :: dated_row where
  "sale2 =
     \<lparr>OrderID = Some ''O2'', Date = 1735603200000000000, Region = Some ''A'',
      Category = Some ''Mac'', Product = Some ''MacBook Air'', Store = Some ''Lyon'',
      CustomerSegment = Some ''Business'', PaymentMethod = Some ''Card'',
      TotalRevenue = 200, Month = ''2024-12'', Year = 2024, Quarter = 4\<rparr>"

definition sale3 :: dated_row where
  "sale3 =
     \<lparr>OrderID = Some ''O3'', Date = 1704844800000000000, Region = Some ''B'',
      Category = Some ''iPhone'', Product = Some ''iPhone 15'', Store = Some ''Paris'',
      CustomerSegment = Some ''Consumer'', PaymentMethod = Some ''Card'',
      TotalRevenue = 50, Month = ''2024-01'', Year = 2024, Quarter = 1\<rparr>"

definition sample_df :: "dated_row list" where
  "sample_df = [sale1, sale2, sale3]"

text \<open>The first sale as read from a file in which its \<^verbatim>\<open>Date\<close> cell is empty.\<close>

definition undated_csv :: "text_cell sale list" where
  "undated_csv = [(hd sample_csv)\<lparr>Date := None\<rparr>]"

text \<open>The three sales, the third with an empty \<^verbatim>\<open>Category\<close> cell.\<close>

definition uncategorised_df :: "dated_row list" where
  "uncategorised_df = [sale1, sale2, sale3\<lparr>Category := None\<rparr>]"

text \<open>Every widget at its default but the regions, where only A is selected.\<close>

definition region_A :: FilterSpec where
  "region_A =
     \<lparr>regions = [Some ''A''], categories = [Some ''iPhone'', Some ''Mac''],
      segments = [Some ''Consumer'', Some ''Business''], years = [2024],
      quarters = [1, 2, 4],
      start_date = 1704844800000000000, end_date = 1735603200000000000\<rparr>"

text \<open>The same with no segment selected, and with the two ends of the range exchanged.\<close>

definition no_segment :: FilterSpec where
  "no_segment = region_A\<lparr>segments := []\<rparr>"

definition reversed_range :: FilterSpec where
  "reversed_range =
     region_A\<lparr>start_date := 1735603200000000000, end_date := 1704844800000000000\<rparr>"

text \<open>
  Kernels for amounts that are whole numbers of moderate size, where float64 addition
  does not round: the sums are the plain sums. One has the sort that leaves equal values
  in the order of their positions, the other the sort that reverses them.
\<close>

definition exact_stable :: kernels where
  "exact_stable =
     \<lparr>sum_f64 = sum_list, mean_f64 = (\<lambda>xs. sum_list xs / real (length xs)),
      group_sum_f64 = sum_list, argsort_f64 = stable_argsort,
      argsort_i64 = stable_argsort\<rparr>"

definition exact_reversing :: kernels where
  "exact_reversing =
     exact_stable\<lparr>argsort_f64 := reversing_argsort, argsort_i64 := reversing_argsort\<rparr>"

text \<open>
  Two sales of equal revenue, in the two orders: the grouped frame of both views is the
  same, the order in which the view shows the products and the stores is not.
\<close>

definition tied_view :: "dated_row list" where
  "tied_view = [sale1, sale2\<lparr>TotalRevenue := 100\<rparr>]"

definition tied_view_swapped :: "dated_row list" where
  "tied_view_swapped = [sale2\<lparr>TotalRevenue := 100\<rparr>, sale1]"

text \<open>
  Four sales of four products in four stores, revenues 100, 100, 200, 200, shown in
  ascending order of the product and store names.
\<close>

definition four_sales :: "dated_row list" where
  "four_sales =
     [sale1\<lparr>Product := Some ''P0'', Store := Some ''S0'', TotalRevenue := 100\<rparr>,
      sale1\<lparr>Product := Some ''P1'', Store := Some ''S1'', TotalRevenue := 100\<rparr>,
      sale1\<lparr>Product := Some ''P2'', Store := Some ''S2'', TotalRevenue := 200\<rparr>,
      sale1\<lparr>Product := Some ''P3'', Store := Some ''S3'', TotalRevenue := 200\<rparr>]"

section \<open>Properties of the filter\<close>

lemma bool_index_map: "bool_index frame (map P frame) = filter P frame"
  unfolding bool_index_def by (induction frame) simp_all

lemma series_and_map: "series_and (map P xs) (map Q xs) = map (\<lambda>x. P x \<and> Q x) xs"
  unfolding series_and_def by (induction xs) simp_all

lemma isin_column: "isin (column c frame) vals = map (\<lambda>r. c r \<in> set vals) frame"
  unfolding isin_def column_def by simp

lemma between_column:
  "between (column c frame) lo hi = map (\<lambda>r. lo \<le> c r \<and> c r \<le> hi) frame"
  unfolding between_def column_def by simp

lemma df_filtered_filter: "df_filtered spec df = filter (matches spec) df"
proof -
  have "df_filtered spec df = filter (\<lambda>r.
      ((((Region r \<in> set (regions spec) \<and> Category r \<in> set (categories spec)) \<and>
         CustomerSegment r \<in> set (segments spec)) \<and> Year r \<in> set (years spec)) \<and>
         Quarter r \<in> set (quarters spec)) \<and>
         (start_date spec \<le> Date r \<and> Date r \<le> end_date spec)) df"
    unfolding df_filtered_def
    by (simp only: isin_column between_column series_and_map bool_index_map)
  also have "\<dots> = filter (matches spec) df"
    by (rule filter_cong) (auto simp: matches_def)
  finally show ?thesis .
qed

lemmas sample_defs =
  sample_df_def sale1_def sale2_def sale3_def region_A_def no_segment_def
  reversed_range_def tied_view_def tied_view_swapped_def four_sales_def sample_csv_def
  sample_dates_def undated_csv_def uncategorised_df_def

lemmas filter_defs =
  df_filtered_def bool_index_def series_and_def isin_def between_def column_def

lemma region_A_view: "df_filtered region_A sample_df = [sale1, sale2]"
  by (simp add: filter_defs sample_defs)

text \<open>
  Claim C1. For every dataset and every filter specification, the filtered view holds
  exactly the records of the dataset whose Region is among the selected regions, whose
  Category is among the selected categories, whose CustomerSegment is among the selected
  segments, whose Year is among the selected years, whose Quarter is among the selected
  quarters, and whose Date lies between the start and the end of the range, both ends
  included. Each membership is equality with an element of the selection.
\<close>

theorem filter_matches_iff:
  "df_filtered spec df =
     filter (\<lambda>r. Region r \<in> set (regions spec) \<and> Category r \<in> set (categories spec) \<and>
        CustomerSegment r \<in> set (segments spec) \<and> Year r \<in> set (years spec) \<and>
        Quarter r \<in> set (quarters spec) \<and>
        start_date spec \<le> Date r \<and> Date r \<le> end_date spec) df \<and>
   (r \<in> set (df_filtered spec df) \<longleftrightarrow>
      r \<in> set df \<and> Region r \<in> set (regions spec) \<and> Category r \<in> set (categories spec) \<and>
      CustomerSegment r \<in> set (segments spec) \<and> Year r \<in> set (years spec) \<and>
      Quarter r \<in> set (quarters spec) \<and>
      start_date spec \<le> Date r \<and> Date r \<le> end_date spec)"
proof -
  have eq: "filter (matches spec) df =
      filter (\<lambda>r. Region r \<in> set (regions spec) \<and> Category r \<in> set (categories spec) \<and>
        CustomerSegment r \<in> set (segments spec) \<and> Year r \<in> set (years spec) \<and>
        Quarter r \<in> set (quarters spec) \<and>
        start_date spec \<le> Date r \<and> Date r \<le> end_date spec) df"
    by (rule filter_cong) (simp_all add: matches_def)
  show ?thesis
    unfolding df_filtered_filter eq by simp
qed

theorem filter_matches_iff_witness:
  "sale1 \<in> set (df_filtered region_A sample_df) \<and> sale3 \<notin> set (df_filtered region_A sample_df)"
proof -
  have in1: "sale1 \<in> set sample_df \<and> Region sale1 \<in> set (regions region_A) \<and>
      Category sale1 \<in> set (categories region_A) \<and>
      CustomerSegment sale1 \<in> set (segments region_A) \<and> Year sale1 \<in> set (years region_A) \<and>
      Quarter sale1 \<in> set (quarters region_A) \<and>
      start_date region_A \<le> Date sale1 \<and> Date sale1 \<le> end_date region_A"
    by (simp add: sample_defs)
  have out3: "Region sale3 \<notin> set (regions region_A)"
    by (simp add: sample_defs)
  from in1 have "sale1 \<in> set (df_filtered region_A sample_df)"
    by (rule iffD2 [OF conjunct2 [OF filter_matches_iff]])
  moreover from out3 have "sale3 \<notin> set (df_filtered region_A sample_df)"
    using conjunct2 [OF filter_matches_iff, of sale3 region_A sample_df] by blast
  ultimately show ?thesis ..
qed

text \<open>
  Claim C2. When at least one of the five selections (regions, categories, segments,
  years, quarters) is empty, the filtered view is empty, whatever the dataset. The filter
  has no error result: it returns the empty frame.
\<close>

theorem empty_selection_empty_view:
  "regions spec = [] \<or> categories spec = [] \<or> segments spec = [] \<or> years spec = [] \<or>
     quarters spec = [] \<Longrightarrow> df_filtered spec df = []"
  unfolding df_filtered_filter by (auto simp: matches_def filter_empty_conv)

theorem empty_selection_empty_view_witness:
  "segments no_segment = [] \<and> sample_df \<noteq> [] \<and> df_filtered no_segment sample_df = []"
proof -
  have h: "segments no_segment = []"
    by (simp add: no_segment_def)
  then have "df_filtered no_segment sample_df = []"
    by (intro empty_selection_empty_view) simp
  with h show ?thesis
    by (simp add: sample_df_def)
qed

text \<open>
  Claim C3. When the start of the date range lies after its end, the filtered view is
  empty, whatever the dataset and the five selections; the result is the empty frame,
  not an error.
\<close>

theorem reversed_range_empty_view:
  "start_date spec > end_date spec \<Longrightarrow> df_filtered spec df = []"
  unfolding df_filtered_filter by (auto simp: matches_def filter_empty_conv)

theorem reversed_range_empty_view_witness:
  "start_date reversed_range > end_date reversed_range \<and> sample_df \<noteq> [] \<and>
   df_filtered reversed_range sample_df = []"
proof -
  have h: "start_date reversed_range > end_date reversed_range"
    by (simp add: reversed_range_def)
  then have "df_filtered reversed_range sample_df = []"
    by (rule reversed_range_empty_view)
  with h show ?thesis
    by (simp add: sample_df_def)
qed

text \<open>
  Claim C7. Filtering is idempotent: filtering the filtered view again with the same
  specification returns the view unchanged, and every record of the view satisfies all
  six conditions.
\<close>

theorem filter_idempotent:
  "df_filtered spec (df_filtered spec df) = df_filtered spec df \<and>
   (\<forall>r \<in> set (df_filtered spec df).
      Region r \<in> set (regions spec) \<and> Category r \<in> set (categories spec) \<and>
      CustomerSegment r \<in> set (segments spec) \<and> Year r \<in> set (years spec) \<and>
      Quarter r \<in> set (quarters spec) \<and>
      start_date spec \<le> Date r \<and> Date r \<le> end_date spec)"
proof
  show "df_filtered spec (df_filtered spec df) = df_filtered spec df"
    unfolding df_filtered_filter by simp
next
  show "\<forall>r \<in> set (df_filtered spec df).
      Region r \<in> set (regions spec) \<and> Category r \<in> set (categories spec) \<and>
      CustomerSegment r \<in> set (segments spec) \<and> Year r \<in> set (years spec) \<and>
      Quarter r \<in> set (quarters spec) \<and>
      start_date spec \<le> Date r \<and> Date r \<le> end_date spec"
    unfolding df_filtered_filter by (simp add: matches_def)
qed

theorem filter_idempotent_witness:
  "df_filtered region_A [sale1, sale2] = [sale1, sale2] \<and>
   Region sale2 \<in> set (regions region_A) \<and> Date sale2 \<le> end_date region_A"
proof -
  note h = filter_idempotent [of region_A sample_df, unfolded region_A_view]
  from h have "df_filtered region_A [sale1, sale2] = [sale1, sale2]" ..
  moreover from h have "Region sale2 \<in> set (regions region_A) \<and> Date sale2 \<le> end_date region_A"
    by simp
  ultimately show ?thesis ..
qed

text \<open>
  Claim C10. The filtered view is an order-preserving subsequence of the dataset: its
  records are records of the dataset in their original relative order, no record occurs
  more often in the view than in the dataset, and the assignment of the view leaves the
  dataset as it was.
\<close>

theorem filter_subsequence:
  "subseq (df_filtered spec df) df \<and>
   set (df_filtered spec df) \<subseteq> set df \<and>
   mset (df_filtered spec df) \<subseteq># mset df \<and>
   frame_df (apply_filters spec s) = frame_df s \<and>
   subseq (frame_df_filtered (apply_filters spec s)) (frame_df s)"
  unfolding df_filtered_filter apply_filters_def by simp

theorem filter_subsequence_witness:
  "subseq [sale1, sale2] sample_df \<and> mset [sale1, sale2] \<subseteq># mset sample_df"
proof -
  note h = filter_subsequence [of region_A sample_df, unfolded region_A_view]
  from h show ?thesis by blast
qed

section \<open>Properties of the loader\<close>

lemma month_loop_bounds:
  "0 \<le> n \<Longrightarrow> n < sum_list ls \<Longrightarrow>
   i + 1 \<le> month_loop ls i n \<and> month_loop ls i n \<le> i + int (length ls)"
proof (induction ls arbitrary: i n)
  case Nil
  then show ?case by simp
next
  case (Cons l ls)
  show ?case
  proof (cases "n < l")
    case True
    then show ?thesis by simp
  next
    case False
    with Cons.prems have "0 \<le> n - l" "n - l < sum_list ls"
      by simp_all
    from Cons.IH [OF this, of "i + 1"] False show ?thesis
      by simp
  qed
qed

lemma leap_cycle_start: "is_leapyear (400 * q + 2000)"
proof -
  have "400 * q + 2000 = 4 * (100 * q + 500)" "400 * q + 2000 = 400 * (q + 5)"
    by simp_all
  then have "(400 * q + 2000) mod 4 = 0" "(400 * q + 2000) mod 400 = 0"
    by (metis mod_mult_self1_is_0)+
  then show ?thesis
    unfolding is_leapyear_def by blast
qed

lemma leap_within_century:
  assumes "1 \<le> k" and "k \<le> 24"
  shows "is_leapyear (400 * q + 100 * c + 4 * k + 2000)"
proof -
  let ?y = "400 * q + 100 * c + 4 * k + 2000"
  have "?y = 4 * (100 * q + 25 * c + k + 500)"
    by simp
  then have four: "?y mod 4 = 0"
    by (metis mod_mult_self1_is_0)
  have "?y = 4 * k + 100 * (4 * q + c + 20)"
    by simp
  then have "?y mod 100 = (4 * k) mod 100"
    by (metis mod_mult_self2)
  also from assms have "\<dots> = 4 * k"
    by simp
  finally have "?y mod 100 \<noteq> 0"
    using assms by simp
  with four show ?thesis
    unfolding is_leapyear_def by blast
qed

lemma days_to_yearsdays_range:
  assumes "days_to_yearsdays d = (y, n)"
  shows "0 \<le> n \<and> n < (if is_leapyear y then 366 else 365)"
proof -
  define Q where "Q = (d - (365 * 30 + 7)) div 146097"
  define D where "D = (d - (365 * 30 + 7)) mod 146097"
  define c where "c = (D - 1) div 36524"
  define E where "E = (D - 1) mod 36524"
  define k where "k = (E + 1) div 1461"
  define F where "F = (E + 1) mod 1461"
  have D: "0 \<le> D" "D < 146097" by (simp_all add: D_def)
  have E: "0 \<le> E" "E < 36524" by (simp_all add: E_def)
  have F: "0 \<le> F" "F < 1461" by (simp_all add: F_def)
  have EF: "E + 1 = 1461 * k + F"
    unfolding k_def F_def by simp
  have unfolded: "(y, n) =
     (if D \<ge> 366 then
        if E \<ge> 365 then
          if F \<ge> 366 then (400 * Q + 100 * c + 4 * k + (F - 1) div 365 + 2000, (F - 1) mod 365)
          else (400 * Q + 100 * c + 4 * k + 2000, F)
        else (400 * Q + 100 * c + 2000, E)
      else (400 * Q + 2000, D))"
    using assms
    unfolding days_to_yearsdays_def Let_def Q_def D_def c_def E_def k_def F_def
    by (simp split: if_splits)
  show ?thesis
  proof (cases "D \<ge> 366")
    case False
    with unfolded have "y = 400 * Q + 2000" "n = D" by simp_all
    with D False show ?thesis by (simp add: leap_cycle_start)
  next
    case d: True
    show ?thesis
    proof (cases "E \<ge> 365")
      case False
      with d unfolded have "n = E" by simp
      with E False show ?thesis by simp
    next
      case e: True
      show ?thesis
      proof (cases "F \<ge> 366")
        case True
        with d e unfolded have "n = (F - 1) mod 365" by simp
        moreover have "0 \<le> (F - 1) mod 365" "(F - 1) mod 365 < 365"
          by simp_all
        ultimately have "0 \<le> n" "n < 365" by simp_all
        then show ?thesis by simp
      next
        case False
        with d e unfolded have yn: "y = 400 * Q + 100 * c + 4 * k + 2000" "n = F" by simp_all
        from EF e False F E have "1 \<le> k" "k \<le> 24" by linarith+
        then have "is_leapyear y" unfolding yn by (rule leap_within_century)
        with yn F False show ?thesis by simp
      qed
    qed
  qed
qed

lemma sum_days_per_month: "sum_list (days_per_month leap) = (if leap then 366 else 365)"
  by (simp add: days_per_month_def)

lemma length_days_per_month: "length (days_per_month leap) = 12"
  by (simp add: days_per_month_def)

lemma dt_month_range: "1 \<le> dt_month t \<and> dt_month t \<le> 12"
proof -
  obtain y n where yn: "days_to_yearsdays (days_since_epoch t) = (y, n)"
    by (cases "days_to_yearsdays (days_since_epoch t)")
  from days_to_yearsdays_range [OF yn]
  have "0 \<le> n" "n < sum_list (days_per_month (is_leapyear y))"
    by (simp_all add: sum_days_per_month)
  from month_loop_bounds [OF this, of 0] show ?thesis
    by (simp add: dt_month_def yn length_days_per_month)
qed

lemma quarter_ceiling: "(m - 1) div 3 + 1 = \<lceil>real_of_int m / 3\<rceil>"
proof -
  have "\<lceil>real_of_int m / real_of_int 3\<rceil> = - (- m div 3)"
    by (rule ceiling_divide_eq_div)
  moreover have "- (- m div 3) = (m - 1) div 3 + 1"
    by presburger
  ultimately show ?thesis by simp
qed

lemma load_data_rows:
  assumes "load_data parse csv = Inr df" and "r \<in> set df"
  shows "\<exists>raw d. r = add_columns raw d"
proof -
  from assms(1) obtain dates where "df = map2 add_columns csv dates"
    unfolding load_data_def by (auto split: sum.splits)
  with assms(2) show ?thesis
    by (auto simp: set_zip)
qed

text \<open>
  The decomposition on known dates: the epoch and the nanosecond before it, the leap day
  2000-02-29 and the day after, and the last nanosecond of February 1900, which has no
  leap day, with the nanosecond after.
\<close>

lemma calendar_examples:
  "dt_year 0 = 1970 \<and> dt_month 0 = 1 \<and> dt_year (- 1) = 1969 \<and> dt_month (- 1) = 12 \<and>
   dt_month 951782400000000000 = 2 \<and> dt_month 951868800000000000 = 3 \<and>
   dt_month (- 2203891200000000001) = 2 \<and> dt_month (- 2203891200000000000) = 3 \<and>
   dt_year (- 2203891200000000000) = 1900"
  by (simp add: dt_year_def dt_month_def days_since_epoch_def ns_per_day_def
      days_to_yearsdays_def is_leapyear_def days_per_month_def Let_def)

lemmas calendar_defs =
  period_str_def zfill_def str_nat.simps digit_char_def dt_year_def dt_month_def
  dt_quarter_def days_since_epoch_def ns_per_day_def days_to_yearsdays_def is_leapyear_def
  days_per_month_def Let_def

lemma sample_loaded: "load_data sample_dates sample_csv = Inr (map as_loaded sample_df)"
  by (simp add: load_data_def add_columns_def as_loaded_def calendar_defs sample_defs)

lemma sample_months: "dt_month (Date sale1) = 4 \<and> dt_month (Date sale2) = 12"
  by (simp add: calendar_defs sale1_def sale2_def)

lemma undated_loaded:
  "load_data sample_dates undated_csv =
     Inr [(as_loaded sale1)\<lparr>Date := None, Month := ''NaT'', Year := None, Quarter := None\<rparr>]"
  by (simp add: load_data_def add_columns_def as_loaded_def sample_defs)

text \<open>
  Claim C9, as the code has it. A record whose \<^verbatim>\<open>Date\<close> cell is empty is loaded, with
  the date NaT and the quarter NaN. For every loaded record whose date is present, the
  Quarter column is the ceiling of the calendar month of the date divided by 3; it lies
  between 1 and 4, a date in month 4 has quarter 2 and a date in month 12 has quarter 4.
\<close>

theorem quarter_of_loaded_record:
  assumes "load_data parse csv = Inr df" and "r \<in> set df"
  shows "(Date r = None \<longrightarrow> Quarter r = None) \<and>
         (\<forall>t. Date r = Some t \<longrightarrow>
            Quarter r = Some \<lceil>real_of_int (dt_month t) / 3\<rceil> \<and>
            1 \<le> \<lceil>real_of_int (dt_month t) / 3\<rceil> \<and> \<lceil>real_of_int (dt_month t) / 3\<rceil> \<le> 4 \<and>
            (dt_month t = 4 \<longrightarrow> Quarter r = Some 2) \<and>
            (dt_month t = 12 \<longrightarrow> Quarter r = Some 4))"
proof -
  from load_data_rows [OF assms] obtain raw d where r: "r = add_columns raw d"
    by blast
  then have none: "Date r = None \<longrightarrow> Quarter r = None"
    by (simp add: add_columns_def)
  have "Quarter r = Some \<lceil>real_of_int (dt_month t) / 3\<rceil> \<and>
        1 \<le> \<lceil>real_of_int (dt_month t) / 3\<rceil> \<and> \<lceil>real_of_int (dt_month t) / 3\<rceil> \<le> 4 \<and>
        (dt_month t = 4 \<longrightarrow> Quarter r = Some 2) \<and>
        (dt_month t = 12 \<longrightarrow> Quarter r = Some 4)" if t: "Date r = Some t" for t
  proof -
    from r t have q: "Quarter r = Some ((dt_month t - 1) div 3 + 1)"
      by (simp add: add_columns_def dt_quarter_def)
    have c: "\<lceil>real_of_int (dt_month t) / 3\<rceil> = (dt_month t - 1) div 3 + 1"
      by (rule quarter_ceiling [symmetric])
    have m: "1 \<le> dt_month t" "dt_month t \<le> 12"
      using dt_month_range [of t] by simp_all
    then have "1 \<le> (dt_month t - 1) div 3 + 1" "(dt_month t - 1) div 3 + 1 \<le> 4"
      by simp_all
    moreover have "dt_month t = 4 \<longrightarrow> Quarter r = Some 2" "dt_month t = 12 \<longrightarrow> Quarter r = Some 4"
      unfolding q by simp_all
    ultimately show ?thesis
      unfolding c q by blast
  qed
  with none show ?thesis by blast
qed

theorem quarter_of_loaded_record_witness:
  "load_data sample_dates sample_csv = Inr (map as_loaded sample_df) \<and>
   as_loaded sale1 \<in> set (map as_loaded sample_df) \<and>
   as_loaded sale2 \<in> set (map as_loaded sample_df) \<and>
   Quarter (as_loaded sale1) = Some 2 \<and> Quarter (as_loaded sale2) = Some 4"
proof -
  have in1: "as_loaded sale1 \<in> set (map as_loaded sample_df)"
    and in2: "as_loaded sale2 \<in> set (map as_loaded sample_df)"
    by (simp_all add: sample_df_def)
  have d1: "Date (as_loaded sale1) = Some (Date sale1)"
    and d2: "Date (as_loaded sale2) = Some (Date sale2)"
    by (simp_all add: as_loaded_def)
  from quarter_of_loaded_record [OF sample_loaded in1] d1 sample_months
  have "Quarter (as_loaded sale1) = Some 2" by blast
  moreover from quarter_of_loaded_record [OF sample_loaded in2] d2 sample_months
  have "Quarter (as_loaded sale2) = Some 4" by blast
  ultimately show ?thesis
    using sample_loaded in1 in2 by blast
qed

text \<open>
  The claim as the specification states it fails on a file whose only row has an empty
  \<^verbatim>\<open>Date\<close> cell: the load succeeds and the record's quarter is NaN, not a number from
  1 to 4.
\<close>

theorem quarter_of_undated_record_counterexample:
  "load_data sample_dates undated_csv =
     Inr [(as_loaded sale1)\<lparr>Date := None, Month := ''NaT'', Year := None, Quarter := None\<rparr>] \<and>
   Quarter ((as_loaded sale1)\<lparr>Date := None, Month := ''NaT'', Year := None, Quarter := None\<rparr>) =
     None"
  unfolding undated_loaded by simp

section \<open>Properties of the sort\<close>

lemma argsort_of_pairs:
  assumes "mset zs = mset (zip xs [0..<length xs])"
  shows "mset (map snd (sort_key fst zs)) = mset [0..<length xs] \<and>
         sorted (map (\<lambda>i. xs ! i) (map snd (sort_key fst zs)))"
proof
  have "mset (map snd (sort_key fst zs)) = image_mset snd (mset zs)"
    by (simp only: mset_map mset_sort)
  also have "\<dots> = mset (map snd (zip xs [0..<length xs]))"
    by (simp only: assms mset_map)
  also have "map snd (zip xs [0..<length xs]) = [0..<length xs]"
    by (rule map_snd_zip) simp
  finally show "mset (map snd (sort_key fst zs)) = mset [0..<length xs]" .
next
  have "set zs = set (zip xs [0..<length xs])"
    using assms by (rule mset_eq_setD)
  then have "\<forall>p \<in> set (sort_key fst zs). xs ! snd p = fst p"
    by (auto simp: set_zip)
  then have "map (\<lambda>p. xs ! snd p) (sort_key fst zs) = map fst (sort_key fst zs)"
    by (intro map_cong refl) blast
  then have eq: "map (\<lambda>i. xs ! i) (map snd (sort_key fst zs)) = map fst (sort_key fst zs)"
    by (simp only: map_map comp_def)
  show "sorted (map (\<lambda>i. xs ! i) (map snd (sort_key fst zs)))"
    unfolding eq by (rule sorted_sort_key)
qed

lemma valid_stable_argsort: "valid_argsort stable_argsort"
  unfolding valid_argsort_def stable_argsort_def
  using argsort_of_pairs [OF refl] by blast

lemma valid_reversing_argsort: "valid_argsort reversing_argsort"
  unfolding valid_argsort_def reversing_argsort_def
proof (intro allI)
  fix xs :: "'a list"
  have "mset (rev (zip xs [0..<length xs])) = mset (zip xs [0..<length xs])"
    by simp
  then show "mset (map snd (sort_key fst (rev (zip xs [0..<length xs])))) = mset [0..<length xs] \<and>
     sorted (map (\<lambda>i. xs ! i) (map snd (sort_key fst (rev (zip xs [0..<length xs])))))"
    by (rule argsort_of_pairs)
qed

lemma rev_upt_nth: "i < n \<Longrightarrow> rev [0..<n] ! i = n - Suc i"
  by (simp add: rev_nth)

lemma sort_values_desc_values:
  assumes "valid_argsort argsort"
  shows "rev (map snd (sort_values_desc argsort rows)) =
         map (\<lambda>i. rev (map snd rows) ! i) (argsort (rev (map snd rows)))"
proof -
  let ?n = "length rows"
  let ?A = "argsort (rev (map snd rows))"
  from assms have "mset ?A = mset [0..<?n]"
    unfolding valid_argsort_def by (metis length_map length_rev)
  then have "set ?A = {0..<?n}"
    by (metis mset_eq_setD set_upt)
  then have in_range: "\<forall>i \<in> set ?A. i < ?n"
    by simp
  have "map snd (sort_values_desc argsort rows) =
        rev (map (\<lambda>i. snd (rows ! (rev [0..<?n] ! i))) ?A)"
    unfolding sort_values_desc_def Let_def by (simp add: rev_map comp_def)
  also have "map (\<lambda>i. snd (rows ! (rev [0..<?n] ! i))) ?A = map (\<lambda>i. rev (map snd rows) ! i) ?A"
  proof (intro map_cong refl)
    fix i assume "i \<in> set ?A"
    with in_range have "i < ?n" by blast
    then have "?n - Suc i < ?n" by arith
    with \<open>i < ?n\<close> show "snd (rows ! (rev [0..<?n] ! i)) = rev (map snd rows) ! i"
      by (simp add: rev_nth)
  qed
  finally show ?thesis by simp
qed

lemma sort_values_desc_descending:
  assumes "valid_argsort argsort"
  shows "sorted (rev (map snd (sort_values_desc argsort rows)))"
  unfolding sort_values_desc_values [OF assms]
  using assms unfolding valid_argsort_def by blast

lemma mset_sort_values_desc:
  assumes "valid_argsort argsort"
  shows "mset (sort_values_desc argsort rows) = mset rows"
proof -
  let ?n = "length rows"
  let ?A = "argsort (rev (map snd rows))"
  from assms have A: "mset ?A = mset [0..<?n]"
    unfolding valid_argsort_def by (metis length_map length_rev)
  have "mset (sort_values_desc argsort rows) =
        image_mset (\<lambda>i. rows ! (rev [0..<?n] ! i)) (mset ?A)"
    unfolding sort_values_desc_def Let_def by (simp add: multiset.map_comp comp_def)
  also have "\<dots> = mset (map (\<lambda>i. rows ! (rev [0..<?n] ! i)) [0..<?n])"
    by (simp only: A mset_map)
  also have "map (\<lambda>i. rows ! (rev [0..<?n] ! i)) [0..<?n] = map (\<lambda>i. rev rows ! i) [0..<?n]"
  proof (intro map_cong refl)
    fix i assume "i \<in> set [0..<?n]"
    then have "i < ?n" by simp
    then have "?n - Suc i < ?n" by arith
    with \<open>i < ?n\<close> show "rows ! (rev [0..<?n] ! i) = rev rows ! i"
      by (simp add: rev_nth)
  qed
  also have "\<dots> = rev rows"
    by (metis length_rev map_nth)
  finally show ?thesis by simp
qed

lemma set_sort_values_desc:
  "valid_argsort argsort \<Longrightarrow> set (sort_values_desc argsort rows) = set rows"
  by (metis mset_sort_values_desc set_mset_mset)

lemma length_sort_values_desc:
  "valid_argsort argsort \<Longrightarrow> length (sort_values_desc argsort rows) = length rows"
  by (metis mset_sort_values_desc size_mset)

section \<open>Properties of the key figures and aggregations\<close>

lemma set_dropna: "set (dropna xs) = {x. Some x \<in> set xs}"
  by (induction xs rule: dropna.induct) auto

lemma filter_dropna:
  "length (filter (\<lambda>x. x = k) (dropna xs)) = length (filter (\<lambda>x. x = Some k) xs)"
  by (induction xs rule: dropna.induct) auto

lemma groupby_sum_keys:
  "map fst (groupby_sum key val gsum frame) = sort (remdups (dropna (map key frame)))"
  unfolding groupby_sum_def by (simp add: comp_def)

lemma groupby_sum_keys_ascending:
  "sorted_wrt (<) (map fst (groupby_sum key val gsum frame))"
  unfolding groupby_sum_keys by (simp add: strict_sorted_iff)

lemma groupby_sum_keys_distinct:
  "distinct (map fst (groupby_sum key val gsum frame))"
  unfolding groupby_sum_keys by simp

lemma groupby_sum_keys_set:
  "fst ` set (groupby_sum key val gsum frame) = set (dropna (column key frame))"
  using arg_cong [OF groupby_sum_keys [of key val gsum frame], of set]
  by (simp add: column_def)

lemma groupby_sum_values:
  "\<forall>p \<in> set (groupby_sum key val gsum frame).
     snd p = gsum (column val (filter (\<lambda>r. key r = Some (fst p)) frame))"
  unfolding groupby_sum_def column_def by auto

lemma sum_list_delta:
  "distinct ks \<Longrightarrow> k0 \<in> set ks \<Longrightarrow> (\<Sum>k\<leftarrow>ks. if k0 = k then (a::real) else 0) = a"
  by (simp add: sum_list_distinct_conv_sum_set)

lemma sum_over_groups:
  "distinct ks \<Longrightarrow> \<forall>r \<in> set xs. \<exists>k \<in> set ks. key r = Some k \<Longrightarrow>
   (\<Sum>k\<leftarrow>ks. sum_list (map val (filter (\<lambda>r. key r = Some k) xs))) =
   sum_list (map (val :: 'r \<Rightarrow> real) xs)"
proof (induction xs)
  case Nil
  then show ?case by simp
next
  case (Cons x xs)
  from Cons.prems obtain k0 where k0: "k0 \<in> set ks" "key x = Some k0"
    by auto
  have "(\<Sum>k\<leftarrow>ks. sum_list (map val (filter (\<lambda>r. key r = Some k) (x # xs)))) =
        (\<Sum>k\<leftarrow>ks. (if k0 = k then val x else 0) +
           sum_list (map val (filter (\<lambda>r. key r = Some k) xs)))"
    by (rule arg_cong [where f = sum_list]) (simp add: k0)
  also have "\<dots> = (\<Sum>k\<leftarrow>ks. if k0 = k then val x else 0) +
        (\<Sum>k\<leftarrow>ks. sum_list (map val (filter (\<lambda>r. key r = Some k) xs)))"
    by (simp add: sum_list_addf)
  also have "\<dots> = val x + sum_list (map val xs)"
    using Cons k0 by (simp add: sum_list_delta)
  finally show ?case by simp
qed

lemma series_sum_exact: "exact_sum (sum_f64 L) xs \<Longrightarrow> series_sum L xs = sum_list xs"
  unfolding exact_sum_def series_sum_def by simp

lemma set_unique: "set (unique xs) = set xs"
  unfolding unique_def by simp

lemma distinct_unique: "distinct (unique xs)"
  unfolding unique_def by simp

lemma value_counts_keys:
  "valid_argsort argsort \<Longrightarrow> fst ` set (value_counts argsort xs) = set (dropna xs)"
  unfolding value_counts_def by (simp add: set_sort_values_desc set_unique image_image)

lemma value_counts_distinct:
  assumes "valid_argsort argsort"
  shows "distinct (map fst (value_counts argsort xs))"
proof -
  have "mset (map fst (value_counts argsort xs)) = mset (unique (dropna xs))"
    unfolding value_counts_def
    by (simp add: mset_sort_values_desc [OF assms] multiset.map_comp comp_def)
  then show ?thesis
    by (metis distinct_unique mset_eq_imp_distinct_iff)
qed

lemma value_counts_descending:
  "valid_argsort argsort \<Longrightarrow> sorted (rev (map snd (value_counts argsort xs)))"
  unfolding value_counts_def by (rule sort_values_desc_descending)

lemma value_counts_counts:
  assumes "valid_argsort argsort"
  shows "\<forall>p \<in> set (value_counts argsort (column c v)).
           snd p = length (filter (\<lambda>r. c r = Some (fst p)) v)"
proof -
  have "length (filter (\<lambda>x. x = Some k) (map c v)) = length (filter (\<lambda>r. c r = Some k) v)" for k
    by (simp add: filter_map comp_def)
  then show ?thesis
    unfolding value_counts_def column_def
    by (auto simp: set_sort_values_desc [OF assms] filter_dropna)
qed

lemma length_head: "length (head n rows) \<le> n"
  unfolding head_def by simp

lemma set_top_n:
  "valid_argsort argsort \<Longrightarrow> set (head n (sort_values_desc argsort rows)) \<subseteq> set rows"
  unfolding head_def using set_take_subset [of n "sort_values_desc argsort rows"]
  by (simp add: set_sort_values_desc)

lemma top_n_descending:
  assumes "valid_argsort argsort"
  shows "sorted (rev (map snd (head n (sort_values_desc argsort rows))))"
proof -
  have "sorted_wrt (\<lambda>x y. y \<le> x) (map snd (sort_values_desc argsort rows))"
    using sort_values_desc_descending [OF assms, of rows] by (simp add: sorted_wrt_rev)
  then have "sorted_wrt (\<lambda>x y. y \<le> x) (take n (map snd (sort_values_desc argsort rows)))"
    by (rule sorted_wrt_take)
  then show ?thesis
    unfolding head_def by (simp add: sorted_wrt_rev take_map)
qed

lemma top_n_distinct:
  assumes "valid_argsort argsort" and "distinct (map fst rows)"
  shows "distinct (map fst (head n (sort_values_desc argsort rows)))"
proof -
  have "mset (map fst (sort_values_desc argsort rows)) = mset (map fst rows)"
    by (simp add: mset_sort_values_desc [OF assms(1)])
  with assms(2) have "distinct (map fst (sort_values_desc argsort rows))"
    by (metis mset_eq_imp_distinct_iff)
  then show ?thesis
    unfolding head_def by (simp add: take_map [symmetric])
qed


lemmas kernel_defs = exact_stable_def exact_reversing_def stable_argsort_def
  reversing_argsort_def sort_values_desc_def head_def Let_def

lemma sample_category_rev:
  "category_rev exact_stable sample_df = [(''Mac'', 200), (''iPhone'', 150)]"
  by (simp add: category_rev_def groupby_sum_def kernel_defs sample_defs)

lemma sample_payment_counts:
  "payment_counts exact_stable sample_df = [(''Card'', 2), (''Cash'', 1)]"
  by (simp add: payment_counts_def value_counts_def unique_def column_def kernel_defs
      sample_defs upt_rec)

lemma sample_total_revenue: "total_revenue exact_stable sample_df = 350"
  by (simp add: total_revenue_def series_sum_def column_def kernel_defs sample_defs)

lemma uncategorised_category_rev:
  "category_rev exact_stable uncategorised_df = [(''Mac'', 200), (''iPhone'', 100)]"
  by (simp add: category_rev_def groupby_sum_def kernel_defs sample_defs)

lemma uncategorised_total_revenue: "total_revenue exact_stable uncategorised_df = 350"
  by (simp add: total_revenue_def series_sum_def column_def kernel_defs sample_defs)

lemma four_sales_stable:
  "top_products exact_stable four_sales =
     [(''P2'', 200), (''P3'', 200), (''P0'', 100), (''P1'', 100)]"
  by (simp add: top_products_def groupby_sum_def kernel_defs sample_defs upt_rec)

lemma four_sales_reversing:
  "top_products exact_reversing four_sales =
     [(''P3'', 200), (''P2'', 200), (''P1'', 100), (''P0'', 100)]"
  by (simp add: top_products_def groupby_sum_def kernel_defs sample_defs upt_rec)

lemma four_stores_reversing:
  "store_rev exact_reversing four_sales =
     [(''S3'', 200), (''S2'', 200), (''S1'', 100), (''S0'', 100)]"
  by (simp add: store_rev_def groupby_sum_def kernel_defs sample_defs upt_rec)

lemma tied_top_products:
  "top_products exact_stable tied_view = [(''MacBook Air'', 100), (''iPhone 15'', 100)]"
  by (simp add: top_products_def groupby_sum_def kernel_defs sample_defs upt_rec)

lemma tied_store_rev:
  "store_rev exact_stable tied_view = [(''Lyon'', 100), (''Paris'', 100)]"
  by (simp add: store_rev_def groupby_sum_def kernel_defs sample_defs upt_rec)

lemma no_segment_view: "df_filtered no_segment sample_df = []"
  by (simp add: filter_defs sample_defs)

text \<open>
  Claim C4. On an empty filtered view the total revenue is 0, the number of orders is
  0, and the average order value is the value NaN: the mean returns this marker and
  raises no error.
\<close>

theorem empty_view_key_figures:
  "total_revenue L [] = 0 \<and> total_orders [] = 0 \<and> avg_order_value L [] = NaN"
  by (simp add: total_revenue_def series_sum_def total_orders_def avg_order_value_def
      mean_def unique_def column_def)

theorem empty_view_key_figures_witness:
  "total_revenue exact_stable (df_filtered no_segment sample_df) = 0 \<and>
   total_orders (df_filtered no_segment sample_df) = 0 \<and>
   avg_order_value exact_stable (df_filtered no_segment sample_df) = NaN"
  unfolding no_segment_view by (rule empty_view_key_figures)

text \<open>
  Claim C5, as the code has it. The queries without sorting by value do not list their
  groups in the order in which the view first shows them. The three grouped sums (revenue
  by month and region, by category, by customer segment) list each key present in the
  view once, in ascending order of the key, each with the sum of the amounts of its rows;
  rows whose key is missing are left out. The payment method counts list each payment
  method present in the view once, each with the number of its rows, in descending order
  of that number.
\<close>

theorem grouped_queries_order:
  assumes "valid_argsort (argsort_i64 L)"
  shows
  "sorted_wrt (<) (map fst (monthly_region L v)) \<and>
   set (map fst (monthly_region L v)) = set (dropna (column month_region v)) \<and>
   (\<forall>p \<in> set (monthly_region L v).
      snd p = group_sum_f64 L (column TotalRevenue (filter (\<lambda>r. month_region r = Some (fst p)) v))) \<and>
   sorted_wrt (<) (map fst (category_rev L v)) \<and>
   set (map fst (category_rev L v)) = set (dropna (column Category v)) \<and>
   (\<forall>p \<in> set (category_rev L v).
      snd p = group_sum_f64 L (column TotalRevenue (filter (\<lambda>r. Category r = Some (fst p)) v))) \<and>
   sorted_wrt (<) (map fst (segment_rev L v)) \<and>
   set (map fst (segment_rev L v)) = set (dropna (column CustomerSegment v)) \<and>
   (\<forall>p \<in> set (segment_rev L v).
      snd p = group_sum_f64 L (column TotalRevenue (filter (\<lambda>r. CustomerSegment r = Some (fst p)) v))) \<and>
   sorted (rev (map snd (payment_counts L v))) \<and>
   distinct (map fst (payment_counts L v)) \<and>
   set (map fst (payment_counts L v)) = set (dropna (column PaymentMethod v)) \<and>
   (\<forall>p \<in> set (payment_counts L v).
      snd p = length (filter (\<lambda>r. PaymentMethod r = Some (fst p)) v))"
  unfolding monthly_region_def category_rev_def segment_rev_def payment_counts_def
    set_map groupby_sum_keys_set value_counts_keys [OF assms]
  by (intro conjI refl groupby_sum_keys_ascending groupby_sum_values
      value_counts_distinct [OF assms] value_counts_descending [OF assms]
      value_counts_counts [OF assms])

theorem grouped_queries_order_witness:
  "sorted_wrt (<) (map fst [(''Mac'', 200 :: real), (''iPhone'', 150)]) \<and>
   sorted (rev (map snd [(''Card'', 2 :: nat), (''Cash'', 1)])) \<and>
   length (filter (\<lambda>r. PaymentMethod r = Some ''Card'') sample_df) = 2"
proof -
  have "valid_argsort (argsort_i64 exact_stable)"
    by (simp add: exact_stable_def valid_stable_argsort)
  note h = grouped_queries_order [OF this, of sample_df,
      unfolded sample_category_rev sample_payment_counts]
  from h have "sorted_wrt (<) (map fst [(''Mac'', 200 :: real), (''iPhone'', 150)])"
    by blast
  moreover from h have "sorted (rev (map snd [(''Card'', 2 :: nat), (''Cash'', 1)]))"
    by blast
  moreover from h have "\<forall>p \<in> set [(''Card'', 2 :: nat), (''Cash'', 1)].
      snd p = length (filter (\<lambda>r. PaymentMethod r = Some (fst p)) sample_df)"
    by blast
  then have "length (filter (\<lambda>r. PaymentMethod r = Some ''Card'') sample_df) = 2"
    by simp
  ultimately show ?thesis by blast
qed

text \<open>
  The claim as the specification states it fails on the sample data: the categories are
  first met in the order iPhone, Mac and listed in the order Mac, iPhone; the payment
  methods are first met in the order Cash, Card and listed in the order Card, Cash,
  whichever of the two sorts is used.
\<close>

theorem grouped_queries_encounter_order_counterexample:
  "map fst (category_rev exact_stable sample_df) \<noteq> dropna (unique (column Category sample_df)) \<and>
   map fst (payment_counts exact_stable sample_df) \<noteq>
     dropna (unique (column PaymentMethod sample_df)) \<and>
   map fst (payment_counts exact_reversing sample_df) \<noteq>
     dropna (unique (column PaymentMethod sample_df))"
  unfolding sample_category_rev sample_payment_counts
  by (simp add: unique_def column_def payment_counts_def value_counts_def kernel_defs
      sample_defs upt_rec)

text \<open>
  Claim C6, as the code has it. The top products and the top stores have at most 10
  entries, each a group of the view with its summed revenue and none twice, in descending
  order of the sum. The order among entries with equal sums is the one the library's sort
  happens to give; it is not the order in which the view first shows the groups.
\<close>

theorem top_n_order:
  assumes "valid_argsort (argsort_f64 L)"
  shows
  "length (top_products L v) \<le> 10 \<and> length (store_rev L v) \<le> 10 \<and>
   set (top_products L v) \<subseteq> set (groupby_sum Product TotalRevenue (group_sum_f64 L) v) \<and>
   set (store_rev L v) \<subseteq> set (groupby_sum Store TotalRevenue (group_sum_f64 L) v) \<and>
   distinct (map fst (top_products L v)) \<and> distinct (map fst (store_rev L v)) \<and>
   sorted (rev (map snd (top_products L v))) \<and> sorted (rev (map snd (store_rev L v)))"
  unfolding top_products_def store_rev_def
  by (simp only: length_head set_top_n [OF assms] top_n_descending [OF assms]
      top_n_distinct [OF assms groupby_sum_keys_distinct] simp_thms)

theorem top_n_order_witness:
  "sorted (rev (map snd [(''P2'', 200 :: real), (''P3'', 200), (''P0'', 100), (''P1'', 100)])) \<and>
   distinct (map fst [(''P2'', 200 :: real), (''P3'', 200), (''P0'', 100), (''P1'', 100)])"
proof -
  have "valid_argsort (argsort_f64 exact_stable)"
    by (simp add: exact_stable_def valid_stable_argsort)
  note h = top_n_order [OF this, of four_sales, unfolded four_sales_stable]
  from h show ?thesis by blast
qed

text \<open>
  No sort can break ties by first encounter: the two views of two sales of equal revenue
  have the same grouped frame, so the sorted list is the same for both, while the order
  in which the products are first met differs.
\<close>

lemma two_rows_permuted:
  assumes "mset out = mset [a, b]"
  shows "out = [a, b] \<or> out = [b, a]"
proof -
  from assms have "length out = 2"
    by (metis length_Cons list.size(3) numeral_2_eq_2 size_mset)
  then obtain x y where out: "out = [x, y]"
    by (auto simp: length_Suc_conv numeral_2_eq_2)
  with assms show ?thesis
    by (auto simp: add_eq_conv_ex)
qed

lemma tied_views_grouped:
  "groupby_sum Product TotalRevenue (group_sum_f64 L) tied_view =
     [(''MacBook Air'', group_sum_f64 L [100]), (''iPhone 15'', group_sum_f64 L [100])] \<and>
   groupby_sum Product TotalRevenue (group_sum_f64 L) tied_view_swapped =
     [(''MacBook Air'', group_sum_f64 L [100]), (''iPhone 15'', group_sum_f64 L [100])]"
  by (simp add: groupby_sum_def sample_defs)

lemma encounter_ties_fail_for_every_sort:
  assumes "valid_argsort (argsort_f64 L)"
  shows "\<not> (sorted_wrt (desc_then_encounter (column Product tied_view)) (top_products L tied_view) \<and>
     sorted_wrt (desc_then_encounter (column Product tied_view_swapped))
       (top_products L tied_view_swapped))"
proof -
  let ?a = "(''MacBook Air'', group_sum_f64 L [100])"
  let ?b = "(''iPhone 15'', group_sum_f64 L [100])"
  let ?out = "sort_values_desc (argsort_f64 L) [?a, ?b]"
  have "mset ?out = mset [?a, ?b]"
    using assms by (rule mset_sort_values_desc)
  then have "?out = [?a, ?b] \<or> ?out = [?b, ?a]"
    by (rule two_rows_permuted)
  then show ?thesis
    unfolding top_products_def conjunct1 [OF tied_views_grouped] conjunct2 [OF tied_views_grouped]
    by (auto simp: head_def desc_then_encounter_def first_index_def column_def sample_defs)
qed

text \<open>
  The claim as the specification states it fails on four sales with revenues 100, 100,
  200, 200 under the sort that reverses equal values, which lists P3, P2, P1, P0 where
  the view shows P2 before P3 and P0 before P1; and on two sales of equal revenue under
  the sort that keeps equal values in place, which lists the MacBook Air before the
  iPhone 15 and Lyon before Paris where the view shows them the other way round.
\<close>

theorem top_n_encounter_ties_counterexample:
  "valid_argsort (argsort_f64 exact_reversing) \<and>
   top_products exact_reversing four_sales =
     [(''P3'', 200), (''P2'', 200), (''P1'', 100), (''P0'', 100)] \<and>
   \<not> sorted_wrt (desc_then_encounter (column Product four_sales))
       (top_products exact_reversing four_sales) \<and>
   \<not> sorted_wrt (desc_then_encounter (column Store four_sales))
       (store_rev exact_reversing four_sales) \<and>
   valid_argsort (argsort_f64 exact_stable) \<and>
   top_products exact_stable tied_view = [(''MacBook Air'', 100), (''iPhone 15'', 100)] \<and>
   \<not> sorted_wrt (desc_then_encounter (column Product tied_view))
       (top_products exact_stable tied_view) \<and>
   \<not> sorted_wrt (desc_then_encounter (column Store tied_view)) (store_rev exact_stable tied_view)"
  unfolding four_sales_reversing four_stores_reversing tied_top_products tied_store_rev
  by (simp add: desc_then_encounter_def first_index_def column_def sample_defs
      exact_stable_def exact_reversing_def valid_stable_argsort valid_reversing_argsort)

text \<open>
  Claim C8, as the code has it. When every record has a category and none of the float64
  sums involved rounds (the sum over the dataset, the sum of each category, and the sum
  of the per-category values), the per-category values of the revenue by category add up
  to the total revenue of the same frame; in particular on the unfiltered dataset.
\<close>

theorem category_revenue_sums_to_total:
  assumes "\<forall>r \<in> set df. Category r \<noteq> None"
    and "exact_sum (sum_f64 L) (column TotalRevenue df)"
    and "\<forall>k. exact_sum (group_sum_f64 L)
           (column TotalRevenue (filter (\<lambda>r. Category r = Some k) df))"
    and "exact_sum (sum_f64 L) (map snd (category_rev L df))"
  shows "series_sum L (map snd (category_rev L df)) = total_revenue L df"
proof -
  let ?ks = "sort (remdups (dropna (map Category df)))"
  have keys: "\<forall>r \<in> set df. \<exists>k \<in> set ?ks. Category r = Some k"
  proof
    fix r assume r: "r \<in> set df"
    with assms(1) obtain k where k: "Category r = Some k"
      by auto
    with r have "Some k \<in> Category ` set df"
      by (metis imageI)
    with k show "\<exists>k \<in> set ?ks. Category r = Some k"
      by (simp add: set_dropna)
  qed
  have groups: "map snd (category_rev L df) =
      map (\<lambda>k. sum_list (map TotalRevenue (filter (\<lambda>r. Category r = Some k) df))) ?ks"
    using assms(3)
    unfolding category_rev_def groupby_sum_def exact_sum_def column_def
    by (simp add: comp_def)
  have "series_sum L (map snd (category_rev L df)) = sum_list (map snd (category_rev L df))"
    using assms(4) by (rule series_sum_exact)
  also have "\<dots> = sum_list (map TotalRevenue df)"
    unfolding groups using keys by (intro sum_over_groups) simp_all
  also have "\<dots> = total_revenue L df"
    unfolding total_revenue_def column_def [symmetric]
    using assms(2) by (rule series_sum_exact [symmetric])
  finally show ?thesis .
qed

theorem category_revenue_sums_to_total_witness:
  "series_sum exact_stable (map snd (category_rev exact_stable sample_df)) = 350"
proof -
  have exact: "exact_sum (sum_f64 exact_stable) xs" "exact_sum (group_sum_f64 exact_stable) xs"
    for xs
    by (simp_all add: exact_sum_def exact_stable_def)
  have "\<forall>r \<in> set sample_df. Category r \<noteq> None"
    by (simp add: sample_defs)
  then have "series_sum exact_stable (map snd (category_rev exact_stable sample_df)) =
      total_revenue exact_stable sample_df"
    by (rule category_revenue_sums_to_total) (simp_all add: exact)
  then show ?thesis
    unfolding sample_total_revenue .
qed

text \<open>
  The claim as the specification states it fails on three sales of 100, 200 and 50 of
  which the third has an empty \<^verbatim>\<open>Category\<close> cell: the grouping leaves that sale out,
  so the categories add up to 300 against a total revenue of 350.
\<close>

theorem category_revenue_missing_category_counterexample:
  "series_sum exact_stable (map snd (category_rev exact_stable uncategorised_df)) = 300 \<and>
   total_revenue exact_stable uncategorised_df = 350"
  unfolding uncategorised_category_rev uncategorised_total_revenue
  by (simp add: series_sum_def exact_stable_def)

end
